theory Spec2Isabelle
  imports Main "HOL-Library.Word"
begin

section \<open>The call manager of agentcall (package callmanager)\<close>

text \<open>
  The theory embeds the call orchestration of \<^verbatim>\<open>pkg/callmanager\<close>: the session
  (\<^verbatim>\<open>CallState\<close>) with its turn log, the manager with its registry of active calls and
  its call counter, and the operations \<^verbatim>\<open>AddTurn\<close>, \<^verbatim>\<open>generateCallID\<close>,
  \<^verbatim>\<open>waitForAnswer\<close>, \<^verbatim>\<open>speak\<close>, \<^verbatim>\<open>listen\<close>, \<^verbatim>\<open>speakAndListen\<close>,
  \<^verbatim>\<open>InitiateCall\<close>, \<^verbatim>\<open>ContinueCall\<close>, \<^verbatim>\<open>SpeakToUser\<close> and \<^verbatim>\<open>EndCall\<close>.

  The signaling backend, the synthesis service, the recognition service and the clock are
  outside the package. Every answer they give to one operation is an input of the model
  (an environment record), and every request the operation makes of them is written to a
  log of effects that the operation returns, in the order the code makes them. One
  operation runs at a time: the locks of the code are not modelled.
\<close>

subsection \<open>Data\<close>

text \<open>A call leg of the signaling backend (\<^verbatim>\<open>callsystem.Call\<close>), by an opaque handle.\<close>

type_synonym Call = nat

text \<open>A reading of the clock, and a duration, in milliseconds.\<close>

type_synonym time = int

type_synonym byte = "8 word"

text \<open>
  Modelled from the spec: the statuses of \<^verbatim>\<open>callsystem.Call.Status\<close>, a type of the
  omnivoice library that is not among the sources. The code names \<^verbatim>\<open>StatusAnswered\<close>,
  \<^verbatim>\<open>StatusEnded\<close>, \<^verbatim>\<open>StatusFailed\<close>, \<^verbatim>\<open>StatusBusy\<close> and \<^verbatim>\<open>StatusNoAnswer\<close>; the
  spec adds the states before the answer (Dialing, Ringing, InProgress).
\<close>

datatype CallStatus =
    StatusDialing | StatusRinging | StatusInProgress
  | StatusAnswered | StatusEnded | StatusFailed | StatusBusy | StatusNoAnswer

record ConversationTurn =
  Role :: string
  Content :: string
  Timestamp :: time

record CallState =
  ID :: string
  Call :: Call
  StartTime :: time
  Conversation :: "ConversationTurn list"
  LastUserMessage :: string

text \<open>
  The errors the package returns. \<^verbatim>\<open>fmt.Errorf("...: %w", err)\<close> wraps the error of a
  callee: the wrapped error is the constructor's argument. \<open>External\<close> is an error value
  made outside the package (by a backend, or the context's \<^verbatim>\<open>Err()\<close>).
\<close>

datatype error =
    External string
  | NotInitialized
  | FailedToMakeCall error
  | CallNotAnswered
  | FailedToSpeak error
  | CallNotFound string
  | FailedToContinue error
  | FailedToHangup error
  | NoTransport
  | TTSSynthesisFailed error
  | TTSStreamError error
  | FailedToWriteAudio error
  | FailedToListen error
  | FailedToStartTranscription error

text \<open>The requests an operation makes of its collaborators and of the session.\<close>

datatype effect =
    TurnAdded string string
  | Dial
  | Hangup Call
  | TransportLookup Call
  | SynthesizeStream string
  | AudioWrite "byte list"
  | TranscribeStream

subsection \<open>The session\<close>

text \<open>
  \<^verbatim>\<open>AddTurn\<close> appends a turn stamped with the clock's reading \<open>now\<close> and, for the role
  \<^verbatim>\<open>"user"\<close>, stores the content as the last user message.
\<close>

definition AddTurn :: "time \<Rightarrow> string \<Rightarrow> string \<Rightarrow> CallState \<Rightarrow> CallState" where
  "AddTurn now role content cs =
     (let cs' = cs\<lparr>Conversation :=
                    Conversation cs @ [\<lparr>Role = role, Content = content, Timestamp = now\<rparr>]\<rparr>
      in if role = ''user'' then cs'\<lparr>LastUserMessage := content\<rparr> else cs')"

text \<open>A sequence of \<^verbatim>\<open>AddTurn\<close> calls on one session, each with its clock reading.\<close>

fun AddTurns :: "(time \<times> string \<times> string) list \<Rightarrow> CallState \<Rightarrow> CallState" where
  "AddTurns [] cs = cs"
| "AddTurns ((now, role, content) # rest) cs = AddTurns rest (AddTurn now role content cs)"

definition turn_of :: "time \<times> string \<times> string \<Rightarrow> ConversationTurn" where
  "turn_of c = (case c of (now, role, content) \<Rightarrow>
                  \<lparr>Role = role, Content = content, Timestamp = now\<rparr>)"

text \<open>\<^verbatim>\<open>Duration\<close>: the time since the session started, at the reading \<open>now\<close>.\<close>

definition Duration :: "time \<Rightarrow> CallState \<Rightarrow> time" where
  "Duration now cs = now - StartTime cs"

subsection \<open>The manager\<close>

text \<open>The signaling provider the manager holds once \<^verbatim>\<open>Initialize\<close> has run, by its webhook address.\<close>

datatype CallSystem = Provider string

text \<open>
  The manager: \<open>callSystem\<close> is \<open>None\<close> for Go's nil (before \<^verbatim>\<open>Initialize\<close>), \<open>calls\<close> is
  the registry, and \<open>callCounter\<close> is Go's \<^verbatim>\<open>int\<close> on a 64-bit platform, where \<^verbatim>\<open>++\<close>
  wraps around. The registry holds pointers to sessions in the code; in the model it holds
  the sessions, and an operation that changes a registered session through its pointer
  stores the changed session under the same id.
\<close>

record Manager =
  callSystem :: "CallSystem option"
  calls :: "string \<rightharpoonup> CallState"
  callCounter :: "64 word"

definition New :: Manager where
  "New = \<lparr>callSystem = None, calls = Map.empty, callCounter = 0\<rparr>"

definition getCall :: "string \<Rightarrow> Manager \<Rightarrow> CallState option" where
  "getCall callID m = calls m callID"

definition removeCall :: "string \<Rightarrow> Manager \<Rightarrow> Manager" where
  "removeCall callID m = m\<lparr>calls := (calls m)(callID := None)\<rparr>"

subsection \<open>Call ids\<close>

text \<open>The verb \<^verbatim>\<open>%d\<close> of \<^verbatim>\<open>fmt.Sprintf\<close>: decimal digits, with a minus sign before a negative number.\<close>

definition digit_char :: "nat \<Rightarrow> char" where
  "digit_char d = char_of (48 + d)"

fun dec_nat :: "nat \<Rightarrow> string" where
  "dec_nat n = (if n < 10 then [digit_char n] else dec_nat (n div 10) @ [digit_char (n mod 10)])"

declare dec_nat.simps [simp del]

definition format_int :: "int \<Rightarrow> string" where
  "format_int i = (if i < 0 then CHR ''-'' # dec_nat (nat (- i)) else dec_nat (nat i))"

text \<open>
  For the proofs: the decimal digits among the characters, and the number a string of
  digits stands for.
\<close>

definition is_digit :: "char \<Rightarrow> bool" where
  "is_digit c = (48 \<le> (of_char c :: nat) \<and> (of_char c :: nat) \<le> 57)"

definition digit_value :: "char \<Rightarrow> nat" where
  "digit_value c = of_char c - 48"

definition undec :: "string \<Rightarrow> nat" where
  "undec s = foldl (\<lambda>a c. 10 * a + digit_value c) 0 s"

text \<open>
  \<^verbatim>\<open>generateCallID\<close> increments the counter and prints it with \<open>unix\<close>, the clock's reading
  in seconds (\<^verbatim>\<open>time.Now().Unix()\<close>, an \<^verbatim>\<open>int64\<close>).
\<close>

definition generateCallID :: "64 word \<Rightarrow> Manager \<Rightarrow> Manager \<times> string" where
  "generateCallID unix m =
     (let m' = m\<lparr>callCounter := callCounter m + 1\<rparr>
      in (m', ''call-'' @ format_int (sint (callCounter m')) @ ''-'' @ format_int (sint unix)))"

text \<open>The ids of successive invocations, one for each clock reading of the list.\<close>

fun generated_ids :: "Manager \<Rightarrow> 64 word list \<Rightarrow> string list" where
  "generated_ids m [] = []"
| "generated_ids m (unix # rest) =
     (case generateCallID unix m of (m', callID) \<Rightarrow> callID # generated_ids m' rest)"

subsection \<open>Waiting for the answer\<close>

text \<open>
  The loop of \<^verbatim>\<open>waitForAnswer\<close>. \<open>now\<close> is the clock's reading at the loop's test and
  \<open>i\<close> counts the polls. The environment says whether the context is done at poll \<open>i\<close>
  (\<open>cancelled i\<close>), what \<^verbatim>\<open>call.Status()\<close> answers there (\<open>status i\<close>), and by how many
  milliseconds the clock ran beyond the 500 ms sleep before the next test (\<open>lag (i + 1)\<close>).
\<close>

definition terminal_status :: "CallStatus \<Rightarrow> bool" where
  "terminal_status s =
     (s = StatusEnded \<or> s = StatusFailed \<or> s = StatusBusy \<or> s = StatusNoAnswer)"

function wait_loop ::
  "(nat \<Rightarrow> bool) \<Rightarrow> (nat \<Rightarrow> CallStatus) \<Rightarrow> (nat \<Rightarrow> nat) \<Rightarrow> time \<Rightarrow> time \<Rightarrow> nat \<Rightarrow> bool" where
  "wait_loop cancelled status lag deadline now i =
     (if now < deadline then
        if cancelled i then False
        else if status i = StatusAnswered then True
        else if terminal_status (status i) then False
        else wait_loop cancelled status lag deadline (now + 500 + int (lag (Suc i))) (Suc i)
      else False)"
  by pat_completeness auto
termination
  by (relation "measure (\<lambda>(cancelled, status, lag, deadline, now, i). nat (deadline - now))") auto

declare wait_loop.simps [simp del]

text \<open>
  \<^verbatim>\<open>waitForAnswer\<close>: the deadline is the reading \<open>now0\<close> plus the timeout; the first test
  reads the clock \<open>lag 0\<close> milliseconds later.
\<close>

definition waitForAnswer ::
  "(nat \<Rightarrow> bool) \<Rightarrow> (nat \<Rightarrow> CallStatus) \<Rightarrow> (nat \<Rightarrow> nat) \<Rightarrow> time \<Rightarrow> time \<Rightarrow> bool" where
  "waitForAnswer cancelled status lag now0 timeout =
     wait_loop cancelled status lag (now0 + timeout) (now0 + int (lag 0)) 0"

text \<open>
  For the statement of what the wait returns: the time from the test of poll \<open>i\<close> to the
  test of poll \<open>i + n\<close>, a poll after which the loop goes on, and a wait that starts at
  poll \<open>i\<close> with the reading \<open>now\<close> and sees the answer \<open>n\<close> polls later.
\<close>

fun elapsed :: "(nat \<Rightarrow> nat) \<Rightarrow> nat \<Rightarrow> nat \<Rightarrow> time" where
  "elapsed lag i 0 = 0"
| "elapsed lag i (Suc n) = elapsed lag i n + 500 + int (lag (i + Suc n))"

definition keeps_waiting :: "(nat \<Rightarrow> bool) \<Rightarrow> (nat \<Rightarrow> CallStatus) \<Rightarrow> nat \<Rightarrow> bool" where
  "keeps_waiting cancelled status j =
     (\<not> cancelled j \<and> status j \<noteq> StatusAnswered \<and> \<not> terminal_status (status j))"

definition answered_at ::
  "(nat \<Rightarrow> bool) \<Rightarrow> (nat \<Rightarrow> CallStatus) \<Rightarrow> (nat \<Rightarrow> nat) \<Rightarrow> time \<Rightarrow> time \<Rightarrow> nat \<Rightarrow> nat \<Rightarrow> bool" where
  "answered_at cancelled status lag deadline now i n =
     (now + elapsed lag i n < deadline \<and> status (i + n) = StatusAnswered \<and> \<not> cancelled (i + n)
      \<and> (\<forall>j<n. keeps_waiting cancelled status (i + j)))"


subsection \<open>Speech out\<close>

text \<open>A chunk of the synthesis stream (\<^verbatim>\<open>tts.StreamChunk\<close>).\<close>

record StreamChunk =
  Audio :: "byte list"
  IsFinal :: bool
  Error :: "error option"

text \<open>
  What the collaborators answer to one \<^verbatim>\<open>speak\<close>: the clock's reading at \<^verbatim>\<open>AddTurn\<close>,
  whether \<^verbatim>\<open>Transport()\<close> is not nil, and the answer of \<^verbatim>\<open>SynthesizeStream\<close>, an error
  or the chunks the channel delivers before it is closed. Each chunk comes with the error
  \<^verbatim>\<open>audioIn.Write\<close> answers if the chunk's audio is written (\<open>None\<close> when it succeeds).
\<close>

record speak_env =
  speak_now :: time
  speak_transport :: bool
  speak_synthesis :: "error + (StreamChunk \<times> error option) list"

text \<open>The loop over the stream: the audio written, and the error it ends with, if any.\<close>

fun stream_audio :: "(StreamChunk \<times> error option) list \<Rightarrow> effect list \<times> error option" where
  "stream_audio [] = ([], None)"
| "stream_audio ((chunk, written) # rest) =
     (case Error chunk of
        Some e \<Rightarrow> ([], Some (TTSStreamError e))
      | None \<Rightarrow>
          (case (if Audio chunk \<noteq> [] then written else None) of
             Some e \<Rightarrow> ([AudioWrite (Audio chunk)], Some (FailedToWriteAudio e))
           | None \<Rightarrow>
               (let w = (if Audio chunk \<noteq> [] then [AudioWrite (Audio chunk)] else [])
                in if IsFinal chunk then (w, None)
                   else (case stream_audio rest of (effs, r) \<Rightarrow> (w @ effs, r)))))"

text \<open>\<^verbatim>\<open>speak\<close>: the session after it, the requests it made in their order, and its error.\<close>

definition speak :: "speak_env \<Rightarrow> CallState \<Rightarrow> string \<Rightarrow> CallState \<times> effect list \<times> error option" where
  "speak env state message =
     (let state' = AddTurn (speak_now env) ''assistant'' message state;
          log = [TurnAdded ''assistant'' message, TransportLookup (Call state')]
      in if \<not> speak_transport env then (state', log, Some NoTransport)
         else (case speak_synthesis env of
                 Inl e \<Rightarrow> (state', log @ [SynthesizeStream message], Some (TTSSynthesisFailed e))
               | Inr stream \<Rightarrow>
                   (case stream_audio stream of
                      (effs, r) \<Rightarrow> (state', log @ [SynthesizeStream message] @ effs, r))))"

subsection \<open>Speech in\<close>

text \<open>An event of the recognition stream (\<^verbatim>\<open>stt.StreamEvent\<close>).\<close>

record StreamEvent =
  Transcript :: string
  EventIsFinal :: bool
  EventError :: "error option"

text \<open>
  What one \<^verbatim>\<open>select\<close> of the listen loop receives: the context is done (with its
  \<^verbatim>\<open>Err()\<close>), the timer fired, the event channel is closed, or an event arrived.
\<close>

datatype select_outcome =
    CtxDone error
  | TimerFired
  | EventsClosed
  | Event StreamEvent

text \<open>
  What the collaborators answer to one \<^verbatim>\<open>listen\<close>: the clock's reading at \<^verbatim>\<open>AddTurn\<close>,
  whether \<^verbatim>\<open>Transport()\<close> is not nil, the error of \<^verbatim>\<open>TranscribeStream\<close> if it fails, and
  what the successive \<^verbatim>\<open>select\<close>s of the loop receive. The goroutine that copies the
  inbound audio to the recognizer runs beside the loop and touches neither the session nor
  the result; it is not modelled.
\<close>

record listen_env =
  listen_now :: time
  listen_transport :: bool
  listen_transcribe :: "error option"
  listen_script :: "select_outcome list"

text \<open>
  The loop of \<^verbatim>\<open>listen\<close>, with the running transcript. Go returns the transcript and the
  error side by side. \<open>None\<close>: the script ended while the loop was still waiting.
\<close>

fun listen_loop ::
  "time \<Rightarrow> select_outcome list \<Rightarrow> string \<Rightarrow> CallState \<Rightarrow>
     (CallState \<times> effect list \<times> string \<times> error option) option" where
  "listen_loop now [] transcript state = None"
| "listen_loop now (CtxDone e # rest) transcript state = Some (state, [], transcript, Some e)"
| "listen_loop now (TimerFired # rest) transcript state =
     (if transcript \<noteq> []
      then Some (AddTurn now ''user'' transcript state, [TurnAdded ''user'' transcript], transcript, None)
      else Some (state, [], transcript, None))"
| "listen_loop now (EventsClosed # rest) transcript state =
     (if transcript \<noteq> []
      then Some (AddTurn now ''user'' transcript state, [TurnAdded ''user'' transcript], transcript, None)
      else Some (state, [], transcript, None))"
| "listen_loop now (Event event # rest) transcript state =
     (case EventError event of
        Some e \<Rightarrow> Some (state, [], transcript, Some e)
      | None \<Rightarrow>
          if EventIsFinal event \<and> Transcript event \<noteq> []
          then Some (AddTurn now ''user'' (Transcript event) state,
                     [TurnAdded ''user'' (Transcript event)], Transcript event, None)
          else if Transcript event \<noteq> [] then listen_loop now rest (Transcript event) state
          else listen_loop now rest transcript state)"

definition listen ::
  "listen_env \<Rightarrow> CallState \<Rightarrow> (CallState \<times> effect list \<times> string \<times> error option) option" where
  "listen env state =
     (if \<not> listen_transport env
      then Some (state, [TransportLookup (Call state)], [], Some NoTransport)
      else (case listen_transcribe env of
              Some e \<Rightarrow> Some (state, [TransportLookup (Call state), TranscribeStream], [],
                               Some (FailedToStartTranscription e))
            | None \<Rightarrow>
                (case listen_loop (listen_now env) (listen_script env) [] state of
                   None \<Rightarrow> None
                 | Some (state', effs, transcript, err) \<Rightarrow>
                     Some (state', [TransportLookup (Call state), TranscribeStream] @ effs,
                           transcript, err))))"

definition speakAndListen ::
  "speak_env \<Rightarrow> listen_env \<Rightarrow> CallState \<Rightarrow> string \<Rightarrow>
     (CallState \<times> effect list \<times> string \<times> error option) option" where
  "speakAndListen senv lenv state message =
     (case speak senv state message of
        (state1, effs1, Some e) \<Rightarrow> Some (state1, effs1, [], Some e)
      | (state1, effs1, None) \<Rightarrow>
          (case listen lenv state1 of
             None \<Rightarrow> None
           | Some (state2, effs2, response, Some e) \<Rightarrow>
               Some (state2, effs1 @ effs2, [], Some (FailedToListen e))
           | Some (state2, effs2, response, None) \<Rightarrow>
               Some (state2, effs1 @ effs2, response, None)))"

subsection \<open>The operations of the manager\<close>

text \<open>
  What the collaborators answer to one \<^verbatim>\<open>InitiateCall\<close>: the answer of \<^verbatim>\<open>MakeCall\<close>, the
  clock's readings (in seconds for the id, at the session's start, and when the wait
  begins), the context, the statuses and the clock during the wait, the error of the
  \<^verbatim>\<open>Hangup\<close> after a wait that failed (the code drops it), and the answers to the
  \<^verbatim>\<open>speak\<close> and the \<^verbatim>\<open>listen\<close> that follow an answered call.
\<close>

record initiate_env =
  init_MakeCall :: "error + Call"
  init_unix :: "64 word"
  init_StartTime :: time
  init_wait_now :: time
  init_done :: "nat \<Rightarrow> bool"
  init_status :: "nat \<Rightarrow> CallStatus"
  init_lag :: "nat \<Rightarrow> nat"
  init_Hangup :: "error option"
  init_speak :: speak_env
  init_listen :: listen_env

text \<open>
  \<^verbatim>\<open>InitiateCall\<close> returns the session (Go's nil is \<open>None\<close>), the response and the error;
  the model adds the manager after the call and the requests made. The wait is bounded by
  30 seconds. \<open>None\<close>: the listen loop was still waiting when its script ended.
\<close>

definition InitiateCall ::
  "initiate_env \<Rightarrow> Manager \<Rightarrow> string \<Rightarrow>
     (Manager \<times> effect list \<times> CallState option \<times> string \<times> error option) option" where
  "InitiateCall env m message =
     (case callSystem m of
        None \<Rightarrow> Some (m, [], None, [], Some NotInitialized)
      | Some cs \<Rightarrow>
          (case init_MakeCall env of
             Inl e \<Rightarrow> Some (m, [Dial], None, [], Some (FailedToMakeCall e))
           | Inr call \<Rightarrow>
               (case generateCallID (init_unix env) m of
                  (m1, callID) \<Rightarrow>
                    (let state = \<lparr>ID = callID, Call = call, StartTime = init_StartTime env,
                                  Conversation = [], LastUserMessage = []\<rparr>;
                         m2 = m1\<lparr>calls := (calls m1)(callID \<mapsto> state)\<rparr>
                     in if \<not> waitForAnswer (init_done env) (init_status env) (init_lag env)
                               (init_wait_now env) 30000
                        then Some (removeCall callID m2, [Dial, Hangup call], None, [],
                                   Some CallNotAnswered)
                        else (case speakAndListen (init_speak env) (init_listen env) state message of
                                None \<Rightarrow> None
                              | Some (state', effs, response, Some e) \<Rightarrow>
                                  Some (m2\<lparr>calls := (calls m2)(callID \<mapsto> state')\<rparr>, Dial # effs,
                                        Some state', [], Some (FailedToSpeak e))
                              | Some (state', effs, response, None) \<Rightarrow>
                                  Some (m2\<lparr>calls := (calls m2)(callID \<mapsto> state')\<rparr>, Dial # effs,
                                        Some state', response, None))))))"

text \<open>\<^verbatim>\<open>ContinueCall\<close> returns the response and the error.\<close>

definition ContinueCall ::
  "speak_env \<Rightarrow> listen_env \<Rightarrow> Manager \<Rightarrow> string \<Rightarrow> string \<Rightarrow>
     (Manager \<times> effect list \<times> string \<times> error option) option" where
  "ContinueCall senv lenv m callID message =
     (case getCall callID m of
        None \<Rightarrow> Some (m, [], [], Some (CallNotFound callID))
      | Some state \<Rightarrow>
          (case speakAndListen senv lenv state message of
             None \<Rightarrow> None
           | Some (state', effs, response, Some e) \<Rightarrow>
               Some (m\<lparr>calls := (calls m)(callID \<mapsto> state')\<rparr>, effs, [], Some (FailedToContinue e))
           | Some (state', effs, response, None) \<Rightarrow>
               Some (m\<lparr>calls := (calls m)(callID \<mapsto> state')\<rparr>, effs, response, None)))"

text \<open>\<^verbatim>\<open>SpeakToUser\<close> returns the error.\<close>

definition SpeakToUser ::
  "speak_env \<Rightarrow> Manager \<Rightarrow> string \<Rightarrow> string \<Rightarrow> Manager \<times> effect list \<times> error option" where
  "SpeakToUser senv m callID message =
     (case getCall callID m of
        None \<Rightarrow> (m, [], Some (CallNotFound callID))
      | Some state \<Rightarrow>
          (case speak senv state message of
             (state', effs, Some e) \<Rightarrow>
               (m\<lparr>calls := (calls m)(callID \<mapsto> state')\<rparr>, effs, Some (FailedToSpeak e))
           | (state', effs, None) \<Rightarrow>
               (m\<lparr>calls := (calls m)(callID \<mapsto> state')\<rparr>, effs, None)))"

text \<open>
  What the collaborators answer to one \<^verbatim>\<open>EndCall\<close>: the answers to the \<^verbatim>\<open>speak\<close> of the
  final message, the clock's reading when the duration is taken (after the two seconds
  the code sleeps when it spoke), and the error of \<^verbatim>\<open>Hangup\<close> if it fails.
\<close>

record end_env =
  end_speak :: speak_env
  end_now :: time
  end_Hangup :: "error option"

text \<open>\<^verbatim>\<open>EndCall\<close> returns the duration and the error.\<close>

definition EndCall ::
  "end_env \<Rightarrow> Manager \<Rightarrow> string \<Rightarrow> string \<Rightarrow> Manager \<times> effect list \<times> time \<times> error option" where
  "EndCall env m callID message =
     (case getCall callID m of
        None \<Rightarrow> (m, [], 0, Some (CallNotFound callID))
      | Some state \<Rightarrow>
          (case (if message \<noteq> []
                 then (case speak (end_speak env) state message of
                         (state', effs, ignored) \<Rightarrow> (state', effs))
                 else (state, [])) of
             (state1, effs) \<Rightarrow>
               (let m1 = m\<lparr>calls := (calls m)(callID \<mapsto> state1)\<rparr>;
                    duration = Duration (end_now env) state1
                in case end_Hangup env of
                     Some e \<Rightarrow> (m1, effs @ [Hangup (Call state1)], duration, Some (FailedToHangup e))
                   | None \<Rightarrow> (removeCall callID m1, effs @ [Hangup (Call state1)], duration, None))))"

subsection \<open>The resolution of a turn, as a specification\<close>

text \<open>
  What a \<^verbatim>\<open>listen\<close> resolves to, in the words of the specification (as amended under C2)
  rather than as the loop computes it: an event resolves the turn when it is final and
  carries text; the turn resolves to the text of the first such event, and without one to
  the last text any event carried, or to the empty text when none carried any.
\<close>

definition resolves :: "StreamEvent \<Rightarrow> bool" where
  "resolves event = (EventIsFinal event \<and> Transcript event \<noteq> [])"

definition resolved_text :: "StreamEvent list \<Rightarrow> string" where
  "resolved_text events =
     (case find resolves events of
        Some event \<Rightarrow> Transcript event
      | None \<Rightarrow>
          (case filter (\<lambda>event. Transcript event \<noteq> []) events of
             [] \<Rightarrow> []
           | candidates \<Rightarrow> Transcript (last candidates)))"

definition error_free :: "StreamEvent list \<Rightarrow> bool" where
  "error_free events = list_all (\<lambda>event. EventError event = None) events"

subsection \<open>Concrete inputs\<close>

text \<open>A registered session, a manager that holds it, and answers of the collaborators.\<close>

definition example_state :: CallState where
  "example_state = \<lparr>ID = ''call-1-0'', Call = 7, StartTime = 1000, Conversation = [],
                     LastUserMessage = []\<rparr>"

definition example_manager :: Manager where
  "example_manager = \<lparr>callSystem = Some (Provider ''https://example.test/media-stream''),
                       calls = [''call-1-0'' \<mapsto> example_state], callCounter = 1\<rparr>"

definition initialized_manager :: Manager where
  "initialized_manager = New\<lparr>callSystem := Some (Provider ''https://example.test/media-stream'')\<rparr>"

definition speak_ok :: speak_env where
  "speak_ok = \<lparr>speak_now = 2000, speak_transport = True,
               speak_synthesis = Inr [(\<lparr>Audio = [1, 2], IsFinal = False, Error = None\<rparr>, None),
                                      (\<lparr>Audio = [3], IsFinal = True, Error = None\<rparr>, None)]\<rparr>"

definition speak_synthesis_fails :: speak_env where
  "speak_synthesis_fails = \<lparr>speak_now = 2000, speak_transport = True,
                            speak_synthesis = Inl (External ''quota exceeded'')\<rparr>"

definition listen_final :: listen_env where
  "listen_final = \<lparr>listen_now = 3000, listen_transport = True, listen_transcribe = None,
                   listen_script = [Event \<lparr>Transcript = ''yes go ahead'', EventIsFinal = True,
                                           EventError = None\<rparr>]\<rparr>"

definition end_hangup_fails :: end_env where
  "end_hangup_fails = \<lparr>end_speak = speak_ok, end_now = 5000,
                       end_Hangup = Some (External ''signaling backend unreachable'')\<rparr>"

text \<open>A dialed call that rings until the wait is over, and one that is answered at the third poll.\<close>

definition initiate_ringing :: initiate_env where
  "initiate_ringing = \<lparr>init_MakeCall = Inr 7, init_unix = 1700000000, init_StartTime = 1000,
      init_wait_now = 1000, init_done = (\<lambda>i. False), init_status = (\<lambda>i. StatusRinging),
      init_lag = (\<lambda>i. 0), init_Hangup = None, init_speak = speak_ok, init_listen = listen_final\<rparr>"

definition initiate_answered_speak_fails :: initiate_env where
  "initiate_answered_speak_fails = \<lparr>init_MakeCall = Inr 7, init_unix = 1700000000,
      init_StartTime = 1000, init_wait_now = 1000, init_done = (\<lambda>i. False),
      init_status = (\<lambda>i. if i < 2 then StatusRinging else StatusAnswered),
      init_lag = (\<lambda>i. 0), init_Hangup = None, init_speak = speak_synthesis_fails,
      init_listen = listen_final\<rparr>"

text \<open>Recognition events without an error, and two scripts of a listen.\<close>

definition fragment :: "string \<Rightarrow> bool \<Rightarrow> StreamEvent" where
  "fragment transcript final = \<lparr>Transcript = transcript, EventIsFinal = final, EventError = None\<rparr>"

definition listen_fragments :: listen_env where
  "listen_fragments = \<lparr>listen_now = 3000, listen_transport = True, listen_transcribe = None,
      listen_script = [Event (fragment ''may'' False), Event (fragment ''maybe later'' False),
                       EventsClosed]\<rparr>"

definition listen_empty_final :: listen_env where
  "listen_empty_final = \<lparr>listen_now = 3000, listen_transport = True, listen_transcribe = None,
      listen_script = [Event (fragment [] True), Event (fragment ''later'' False),
                       EventsClosed]\<rparr>"

section \<open>Properties\<close>

subsection \<open>The turn log\<close>

lemma Conversation_AddTurn:
  "Conversation (AddTurn now role content cs) =
     Conversation cs @ [\<lparr>Role = role, Content = content, Timestamp = now\<rparr>]"
  by (simp add: AddTurn_def Let_def)

lemma LastUserMessage_AddTurn:
  "LastUserMessage (AddTurn now role content cs) =
     (if role = ''user'' then content else LastUserMessage cs)"
  by (simp add: AddTurn_def Let_def)

lemma AddTurn_frame:
  "ID (AddTurn now role content cs) = ID cs"
  "Call (AddTurn now role content cs) = Call cs"
  "StartTime (AddTurn now role content cs) = StartTime cs"
  by (simp_all add: AddTurn_def Let_def)

lemma Conversation_AddTurns:
  "Conversation (AddTurns reqs cs) = Conversation cs @ map turn_of reqs"
  by (induction reqs cs rule: AddTurns.induct)
     (simp_all add: Conversation_AddTurn turn_of_def)

text \<open>
  C7. \<^verbatim>\<open>AddTurn\<close> extends the turn log by exactly one turn with the given role and text,
  after the turns that were there, which stay as they were; it sets the last user message
  to the text when the role is \<^verbatim>\<open>"user"\<close> and leaves it alone otherwise; it changes no
  other field, and it returns a session for every input (it has no error result). A
  sequence of calls therefore leaves the turns in the order of the calls.
\<close>

theorem AddTurn_appends_in_call_order:
  "Conversation (AddTurn now role content cs) =
     Conversation cs @ [\<lparr>Role = role, Content = content, Timestamp = now\<rparr>]
   \<and> LastUserMessage (AddTurn now role content cs) =
       (if role = ''user'' then content else LastUserMessage cs)
   \<and> ID (AddTurn now role content cs) = ID cs
   \<and> Call (AddTurn now role content cs) = Call cs
   \<and> StartTime (AddTurn now role content cs) = StartTime cs
   \<and> Conversation (AddTurns reqs cs) = Conversation cs @ map turn_of reqs"
  by (simp add: Conversation_AddTurn LastUserMessage_AddTurn AddTurn_frame
        Conversation_AddTurns)

subsection \<open>Speech out records the turn first\<close>

lemma speak_state:
  "fst (speak env state message) = AddTurn (speak_now env) ''assistant'' message state"
  by (simp add: speak_def Let_def split: sum.splits prod.splits)

lemma stream_audio_no_turn: "TurnAdded role content \<notin> set (fst (stream_audio stream))"
  by (induction stream rule: stream_audio.induct)
     (auto simp: Let_def split: option.splits prod.splits if_splits)

lemma speak_effects:
  "\<exists>rest. fst (snd (speak env state message)) = TurnAdded ''assistant'' message # rest
          \<and> (\<forall>role content. TurnAdded role content \<notin> set rest)"
proof (cases "speak_synthesis env")
  case (Inl e)
  then show ?thesis by (simp add: speak_def Let_def)
next
  case (Inr stream)
  obtain effs r where s: "stream_audio stream = (effs, r)" by (cases "stream_audio stream")
  have "TurnAdded role content \<notin> set effs" for role content
    using stream_audio_no_turn [of role content stream] s by simp
  with Inr s show ?thesis by (simp add: speak_def Let_def)
qed

text \<open>
  C3. For every session, message and answer of the transport and of the synthesis
  backend, \<^verbatim>\<open>speak\<close> leaves the session with the assistant turn for the message appended:
  the log of turns is the old log followed by that turn, so its last turn is that turn,
  whether \<^verbatim>\<open>speak\<close> succeeds or fails. The appending is the first request \<^verbatim>\<open>speak\<close>
  makes, before the transport lookup, the synthesis request and every write of audio, and
  it appends no other turn.
\<close>

theorem speak_records_turn_before_sending:
  "fst (speak env state message) = AddTurn (speak_now env) ''assistant'' message state
   \<and> Conversation (fst (speak env state message)) =
       Conversation state @
         [\<lparr>Role = ''assistant'', Content = message, Timestamp = speak_now env\<rparr>]
   \<and> last (Conversation (fst (speak env state message))) =
       \<lparr>Role = ''assistant'', Content = message, Timestamp = speak_now env\<rparr>
   \<and> (\<exists>rest. fst (snd (speak env state message)) = TurnAdded ''assistant'' message # rest
             \<and> (\<forall>role content. TurnAdded role content \<notin> set rest))"
  using speak_effects [of env state message]
  by (simp add: speak_state Conversation_AddTurn)

text \<open>The turn is there after a synthesis that fails, and after one that succeeds.\<close>

lemma speak_examples:
  "speak speak_synthesis_fails example_state ''hello'' =
     (example_state\<lparr>Conversation :=
        [\<lparr>Role = ''assistant'', Content = ''hello'', Timestamp = 2000\<rparr>]\<rparr>,
      [TurnAdded ''assistant'' ''hello'', TransportLookup 7, SynthesizeStream ''hello''],
      Some (TTSSynthesisFailed (External ''quota exceeded'')))"
  "speak speak_ok example_state ''hello'' =
     (example_state\<lparr>Conversation :=
        [\<lparr>Role = ''assistant'', Content = ''hello'', Timestamp = 2000\<rparr>]\<rparr>,
      [TurnAdded ''assistant'' ''hello'', TransportLookup 7, SynthesizeStream ''hello'',
       AudioWrite [1, 2], AudioWrite [3]],
      None)"
  by (simp_all add: speak_def speak_synthesis_fails_def speak_ok_def example_state_def
        AddTurn_def Let_def)

subsection \<open>Speech in\<close>

lemma Call_example_state: "Call example_state = 7"
  by (simp add: example_state_def)

lemma Conversation_example_state: "Conversation example_state = []"
  by (simp add: example_state_def)

lemma listen_loop_resolved:
  "listen_loop now script t state = Some (state', effs, resolved, None) \<Longrightarrow>
     state' = (if resolved \<noteq> [] then AddTurn now ''user'' resolved state else state)
   \<and> effs = (if resolved \<noteq> [] then [TurnAdded ''user'' resolved] else [])"
  by (induction now script t state rule: listen_loop.induct)
     (auto split: option.splits if_splits)

text \<open>
  A return of the loop without an error is a resolution: the script holds events, then the
  timer, the closing of the stream, or a final event with text.
\<close>

lemma listen_loop_resolution_paths:
  "listen_loop now script t state = Some (state', effs, resolved, None) \<Longrightarrow>
     \<exists>events final rest.
        script = map Event events @ final # rest
      \<and> (final = TimerFired \<or> final = EventsClosed
           \<or> (\<exists>event. final = Event event \<and> EventIsFinal event \<and> Transcript event \<noteq> []))"
proof (induction now script t state rule: listen_loop.induct)
  case (1 now transcript state)
  then show ?case by simp
next
  case (2 now e rest transcript state)
  then show ?case by simp
next
  case (3 now rest transcript state)
  show ?case by (rule exI [of _ "[]"]) simp
next
  case (4 now rest transcript state)
  show ?case by (rule exI [of _ "[]"]) simp
next
  case (5 now event rest transcript state)
  show ?case
  proof (cases "EventIsFinal event \<and> Transcript event \<noteq> []")
    case True
    then show ?thesis by (intro exI [of _ "[]"] exI [of _ "Event event"] exI [of _ rest]) simp
  next
    case False
    with 5 obtain events final rest' where
      r: "rest = map Event events @ final # rest'"
      and f: "final = TimerFired \<or> final = EventsClosed
           \<or> (\<exists>event. final = Event event \<and> EventIsFinal event \<and> Transcript event \<noteq> [])"
      by (cases "EventError event"; cases "Transcript event = []") auto
    from r have "Event event # rest = map Event (event # events) @ final # rest'" by simp
    with f show ?thesis by blast
  qed
qed

text \<open>
  C6. Whenever \<^verbatim>\<open>listen\<close> returns without an error, which it does only when it
  resolves through a final event, through the closing of the event stream or through the
  timer, the session it leaves is the session it was given with one user turn for the
  resolved text appended if that text is not empty, and the very same session if the text
  is empty. The turn is in the session that \<^verbatim>\<open>listen\<close> returns, so it is appended before
  the return, and it is the only turn \<^verbatim>\<open>listen\<close> appends.
\<close>

theorem listen_appends_user_turn_iff_nonempty:
  assumes "listen env state = Some (state', effs, resolved, None)"
  shows "state' = (if resolved \<noteq> [] then AddTurn (listen_now env) ''user'' resolved state else state)
       \<and> Conversation state' =
           (if resolved \<noteq> []
            then Conversation state @
                   [\<lparr>Role = ''user'', Content = resolved, Timestamp = listen_now env\<rparr>]
            else Conversation state)
       \<and> effs = [TransportLookup (Call state), TranscribeStream] @
                 (if resolved \<noteq> [] then [TurnAdded ''user'' resolved] else [])"
  using assms
  by (auto simp: listen_def Conversation_AddTurn split: if_splits option.splits
      dest!: listen_loop_resolved)

theorem listen_appends_user_turn_iff_nonempty_witness:
  "listen listen_final example_state =
     Some (AddTurn 3000 ''user'' ''yes go ahead'' example_state,
           [TransportLookup 7, TranscribeStream, TurnAdded ''user'' ''yes go ahead''],
           ''yes go ahead'', None)
   \<and> Conversation (AddTurn 3000 ''user'' ''yes go ahead'' example_state) =
       [\<lparr>Role = ''user'', Content = ''yes go ahead'', Timestamp = 3000\<rparr>]"
proof -
  have h: "listen listen_final example_state =
     Some (AddTurn 3000 ''user'' ''yes go ahead'' example_state,
           [TransportLookup 7, TranscribeStream, TurnAdded ''user'' ''yes go ahead''],
           ''yes go ahead'', None)"
    by (simp add: listen_def listen_final_def Call_example_state)
  have n: "listen_now listen_final = 3000" by (simp add: listen_final_def)
  from listen_appends_user_turn_iff_nonempty [OF h]
  have "Conversation (AddTurn 3000 ''user'' ''yes go ahead'' example_state) =
       [\<lparr>Role = ''user'', Content = ''yes go ahead'', Timestamp = 3000\<rparr>]"
    by (simp add: n Conversation_example_state)
  with h show ?thesis by (intro conjI)
qed

text \<open>With nothing understood before the timer, and with a context that is cancelled.\<close>

lemma listen_examples:
  "listen (listen_final\<lparr>listen_script := [TimerFired]\<rparr>) example_state =
     Some (example_state, [TransportLookup 7, TranscribeStream], [], None)"
  "listen (listen_final\<lparr>listen_script :=
       [Event \<lparr>Transcript = ''yes'', EventIsFinal = False, EventError = None\<rparr>,
        CtxDone (External ''context canceled'')]\<rparr>) example_state =
     Some (example_state, [TransportLookup 7, TranscribeStream], ''yes'',
           Some (External ''context canceled''))"
  by (simp_all add: listen_def listen_final_def Call_example_state)

subsection \<open>How a turn resolves\<close>

lemma listen_loop_final:
  "error_free events \<Longrightarrow> find resolves events = Some event \<Longrightarrow>
     listen_loop now (map Event events @ rest) t state =
       Some (AddTurn now ''user'' (Transcript event) state,
             [TurnAdded ''user'' (Transcript event)], Transcript event, None)"
  by (induction events arbitrary: t)
     (auto simp: error_free_def resolves_def split: if_splits)

lemma listen_loop_candidate:
  "error_free events \<Longrightarrow> find resolves events = None \<Longrightarrow>
     listen_loop now (map Event events @ rest) t state =
       listen_loop now rest
         (case filter (\<lambda>event. Transcript event \<noteq> []) events of
            [] \<Rightarrow> t | candidates \<Rightarrow> Transcript (last candidates)) state"
  by (induction events arbitrary: t)
     (auto simp: error_free_def resolves_def split: if_splits list.splits)

text \<open>
  C2, as stated, fails: an event with the final flag and an empty transcript does not
  resolve the turn. The loop goes on, and the listen below resolves to the fragment
  that follows the final event.
\<close>

theorem final_event_with_empty_transcript_does_not_resolve:
  "EventIsFinal (fragment [] True)
   \<and> Transcript (fragment [] True) = []
   \<and> listen_script listen_empty_final =
       [Event (fragment [] True), Event (fragment ''later'' False), EventsClosed]
   \<and> listen listen_empty_final example_state =
       Some (AddTurn 3000 ''user'' ''later'' example_state,
             [TransportLookup 7, TranscribeStream, TurnAdded ''user'' ''later''],
             ''later'', None)"
  by (simp add: listen_def listen_empty_final_def fragment_def Call_example_state)

text \<open>
  C2, amended. For every sequence of recognition events without an error: the first event
  that is final and carries text resolves the turn at once, whatever follows it, and the
  listen returns its transcript and appends it as a user turn; when no event is final with
  text and the stream closes or the timer fires after the events, the listen returns the
  last text an event carried (the empty text if none did). An event with an empty
  transcript, final or not, changes nothing. In particular the fragments "may" and
  "maybe later" followed by the closing of the stream resolve to "maybe later".
\<close>

theorem listen_resolves_first_final_or_last_candidate:
  assumes "listen_transport env" and "listen_transcribe env = None" and "error_free events"
  shows "(\<forall>event rest.
            find resolves events = Some event \<and> listen_script env = map Event events @ rest \<longrightarrow>
            listen env state =
              Some (AddTurn (listen_now env) ''user'' (Transcript event) state,
                    [TransportLookup (Call state), TranscribeStream,
                     TurnAdded ''user'' (Transcript event)],
                    Transcript event, None))
       \<and> (\<forall>terminator rest.
            (terminator = EventsClosed \<or> terminator = TimerFired) \<and>
            listen_script env = map Event events @ terminator # rest \<longrightarrow>
            (\<exists>state' effs. listen env state = Some (state', effs, resolved_text events, None)))"
proof (intro conjI allI impI)
  fix event rest
  assume "find resolves events = Some event \<and> listen_script env = map Event events @ rest"
  with assms show "listen env state =
              Some (AddTurn (listen_now env) ''user'' (Transcript event) state,
                    [TransportLookup (Call state), TranscribeStream,
                     TurnAdded ''user'' (Transcript event)],
                    Transcript event, None)"
    by (simp add: listen_def listen_loop_final)
next
  fix terminator rest
  assume h: "(terminator = EventsClosed \<or> terminator = TimerFired) \<and>
             listen_script env = map Event events @ terminator # rest"
  show "\<exists>state' effs. listen env state = Some (state', effs, resolved_text events, None)"
  proof (cases "find resolves events")
    case None
    with assms h show ?thesis
      by (auto simp: listen_def listen_loop_candidate resolved_text_def split: list.splits)
  next
    case (Some event)
    with assms h show ?thesis
      by (simp add: listen_def listen_loop_final resolved_text_def)
  qed
qed

theorem listen_resolves_first_final_or_last_candidate_witness:
  "listen_transport listen_fragments
   \<and> listen_transcribe listen_fragments = None
   \<and> error_free [fragment ''may'' False, fragment ''maybe later'' False]
   \<and> resolved_text [fragment ''may'' False, fragment ''maybe later'' False] = ''maybe later''
   \<and> (\<exists>state' effs. listen listen_fragments example_state =
                         Some (state', effs, ''maybe later'', None))"
  (is "?A \<and> ?B \<and> ?C \<and> ?D \<and> ?E")
proof -
  let ?events = "[fragment ''may'' False, fragment ''maybe later'' False]"
  have a: ?A by (simp add: listen_fragments_def)
  have b: ?B by (simp add: listen_fragments_def)
  have c: ?C by (simp add: error_free_def fragment_def)
  have d: ?D by (simp add: resolved_text_def resolves_def fragment_def)
  have s: "(EventsClosed = EventsClosed \<or> EventsClosed = TimerFired) \<and>
           listen_script listen_fragments = map Event ?events @ EventsClosed # []"
    by (simp add: listen_fragments_def)
  from listen_resolves_first_final_or_last_candidate [OF a b c, of example_state]
  have "\<forall>terminator rest.
          (terminator = EventsClosed \<or> terminator = TimerFired) \<and>
          listen_script listen_fragments = map Event ?events @ terminator # rest \<longrightarrow>
          (\<exists>state' effs. listen listen_fragments example_state =
                           Some (state', effs, resolved_text ?events, None))"
    by (rule conjunct2)
  then have "(EventsClosed = EventsClosed \<or> EventsClosed = TimerFired) \<and>
          listen_script listen_fragments = map Event ?events @ EventsClosed # [] \<longrightarrow>
          (\<exists>state' effs. listen listen_fragments example_state =
                           Some (state', effs, resolved_text ?events, None))"
    by (elim allE)
  from this s have "\<exists>state' effs. listen listen_fragments example_state =
                           Some (state', effs, resolved_text ?events, None)"
    by (rule mp)
  then have e: ?E by (simp only: d)
  from d e have "?D \<and> ?E" by (rule conjI)
  with c have "?C \<and> ?D \<and> ?E" by (rule conjI)
  with b have "?B \<and> ?C \<and> ?D \<and> ?E" by (rule conjI)
  with a show ?thesis by (rule conjI)
qed

subsection \<open>A call that is not answered\<close>

lemma wait_loop_deadline: "deadline \<le> now \<Longrightarrow> \<not> wait_loop cancelled status lag deadline now i"
  by (subst wait_loop.simps) simp

lemma wait_loop_cancelled: "cancelled i \<Longrightarrow> \<not> wait_loop cancelled status lag deadline now i"
  by (subst wait_loop.simps) simp

lemma wait_loop_terminal:
  "terminal_status (status i) \<Longrightarrow> \<not> wait_loop cancelled status lag deadline now i"
  by (subst wait_loop.simps) (auto simp: terminal_status_def)

lemma wait_loop_next:
  "now < deadline \<Longrightarrow> \<not> cancelled i \<Longrightarrow> status i \<noteq> StatusAnswered \<Longrightarrow>
   \<not> terminal_status (status i) \<Longrightarrow>
     wait_loop cancelled status lag deadline now i =
       wait_loop cancelled status lag deadline (now + 500 + int (lag (Suc i))) (Suc i)"
  by (subst wait_loop.simps) simp

lemma wait_loop_answered:
  "now < deadline \<Longrightarrow> \<not> cancelled i \<Longrightarrow> status i = StatusAnswered \<Longrightarrow>
     wait_loop cancelled status lag deadline now i"
  by (subst wait_loop.simps) simp

lemma wait_never_answered:
  "(\<And>i. status i \<noteq> StatusAnswered) \<Longrightarrow> \<not> wait_loop cancelled status lag deadline now i"
  by (induction cancelled status lag deadline now i rule: wait_loop.induct)
     (subst wait_loop.simps, simp)

text \<open>
  What the wait returns: true exactly when some poll before the deadline sees the answer,
  with a context that is not done, after polls that all left the loop waiting. So the
  wait returns false when, after such polls, the context is done, the status is terminal,
  or the deadline has passed.
\<close>

lemma elapsed_nonneg: "0 \<le> elapsed lag i n"
  by (induction n) simp_all

lemma elapsed_shift: "elapsed lag i (Suc n) = 500 + int (lag (Suc i)) + elapsed lag (Suc i) n"
  by (induction n) simp_all

lemma answered_at_Suc:
  "answered_at cancelled status lag deadline now i (Suc n) \<longleftrightarrow>
     keeps_waiting cancelled status i \<and>
     answered_at cancelled status lag deadline (now + 500 + int (lag (Suc i))) (Suc i) n"
proof -
  have "(\<forall>j<Suc n. keeps_waiting cancelled status (i + j)) \<longleftrightarrow>
        keeps_waiting cancelled status i \<and> (\<forall>j<n. keeps_waiting cancelled status (Suc i + j))"
    by (auto simp: less_Suc_eq_0_disj)
  then show ?thesis
    unfolding answered_at_def elapsed_shift by (auto simp: add.assoc)
qed

lemma answered_at_0:
  "answered_at cancelled status lag deadline now i 0 \<longleftrightarrow>
     now < deadline \<and> status i = StatusAnswered \<and> \<not> cancelled i"
  by (simp add: answered_at_def)

lemma answered_at_deadline:
  "answered_at cancelled status lag deadline now i n \<Longrightarrow> now < deadline"
  using elapsed_nonneg [of lag i n] by (simp add: answered_at_def)

lemma wait_loop_iff:
  "wait_loop cancelled status lag deadline now i \<longleftrightarrow>
     (\<exists>n. answered_at cancelled status lag deadline now i n)"
proof (induction cancelled status lag deadline now i rule: wait_loop.induct)
  case (1 cancelled status lag deadline now i)
  have split: "(\<exists>n. answered_at cancelled status lag deadline now i n) \<longleftrightarrow>
      answered_at cancelled status lag deadline now i 0 \<or>
      (\<exists>n. answered_at cancelled status lag deadline now i (Suc n))"
    by (metis not0_implies_Suc)
  show ?case
  proof (cases "now < deadline \<and> keeps_waiting cancelled status i")
    case True
    then have "wait_loop cancelled status lag deadline now i =
       wait_loop cancelled status lag deadline (now + 500 + int (lag (Suc i))) (Suc i)"
      by (simp add: wait_loop_next keeps_waiting_def)
    also have "\<dots> \<longleftrightarrow> (\<exists>n. answered_at cancelled status lag deadline
                              (now + 500 + int (lag (Suc i))) (Suc i) n)"
      using True by (intro "1.IH") (simp_all add: keeps_waiting_def)
    also have "\<dots> \<longleftrightarrow> (\<exists>n. answered_at cancelled status lag deadline now i n)"
      using True unfolding split answered_at_Suc answered_at_0 by (simp add: keeps_waiting_def)
    finally show ?thesis .
  next
    case False
    have no_Suc: "\<not> (\<exists>n. answered_at cancelled status lag deadline now i (Suc n))"
    proof
      assume "\<exists>n. answered_at cancelled status lag deadline now i (Suc n)"
      then obtain n where a: "answered_at cancelled status lag deadline now i (Suc n)" ..
      from a have "now < deadline" by (rule answered_at_deadline)
      moreover from a have "keeps_waiting cancelled status i" by (simp add: answered_at_Suc)
      ultimately show False using False by simp
    qed
    show ?thesis
    proof (cases "now < deadline \<and> \<not> cancelled i \<and> status i = StatusAnswered")
      case True
      then show ?thesis
        using wait_loop_answered [of now deadline cancelled i status lag]
        by (auto simp: split answered_at_0)
    next
      case no: False
      with False have "\<not> wait_loop cancelled status lag deadline now i"
        using wait_loop_deadline [of deadline now cancelled status lag i]
          wait_loop_cancelled [of cancelled i status lag deadline now]
          wait_loop_terminal [of status i cancelled lag deadline now]
        by (auto simp: keeps_waiting_def)
      with no no_Suc show ?thesis by (auto simp: split answered_at_0)
    qed
  qed
qed

lemma elapsed_mono: "k \<le> n \<Longrightarrow> elapsed lag i k \<le> elapsed lag i n"
  by (induction n) (auto simp: le_Suc_eq)

lemma waitForAnswer_iff:
  "waitForAnswer cancelled status lag now0 timeout \<longleftrightarrow>
     (\<exists>n. answered_at cancelled status lag (now0 + timeout) (now0 + int (lag 0)) 0 n)"
  by (simp add: waitForAnswer_def wait_loop_iff)

lemma waitForAnswer_false_causes:
  assumes waiting: "\<forall>j<k. keeps_waiting cancelled status j"
    and cause: "cancelled k \<or> terminal_status (status k)
                \<or> now0 + timeout \<le> now0 + int (lag 0) + elapsed lag 0 k"
  shows "\<not> waitForAnswer cancelled status lag now0 timeout"
proof
  assume "waitForAnswer cancelled status lag now0 timeout"
  then obtain n where a: "answered_at cancelled status lag (now0 + timeout) (now0 + int (lag 0)) 0 n"
    unfolding waitForAnswer_iff ..
  then have n: "now0 + int (lag 0) + elapsed lag 0 n < now0 + timeout"
    "status n = StatusAnswered" "\<not> cancelled n" "\<forall>j<n. keeps_waiting cancelled status j"
    by (simp_all add: answered_at_def)
  consider "n < k" | "n = k" | "k < n" by linarith
  then show False
  proof cases
    case 1
    with waiting n(2) show False by (auto simp: keeps_waiting_def)
  next
    case 2
    with cause n show False by (auto simp: terminal_status_def)
  next
    case 3
    then have "keeps_waiting cancelled status k" using n(4) by simp
    moreover from 3 have "elapsed lag 0 k \<le> elapsed lag 0 n" by (simp add: elapsed_mono)
    ultimately show False using cause n(1) by (auto simp: keeps_waiting_def)
  qed
qed

text \<open>
  C4. When the dialed call is made and \<^verbatim>\<open>waitForAnswer\<close> returns false within its bound
  of 30 seconds (a poll saw a terminal status, the deadline passed, or the context was
  done: \<open>waitForAnswer_false_causes\<close> above), \<^verbatim>\<open>InitiateCall\<close> dials, hangs up the call (whatever the hangup
  answers), removes the session and returns the error "call not answered" with no
  session: after it the registry has no session under the generated id, and every other
  id is registered as it was before.
\<close>

theorem InitiateCall_not_answered:
  assumes "callSystem m = Some cs" and "init_MakeCall env = Inr call"
    and "\<not> waitForAnswer (init_done env) (init_status env) (init_lag env) (init_wait_now env) 30000"
  shows "\<exists>m'. InitiateCall env m message =
                 Some (m', [Dial, Hangup call], None, [], Some CallNotAnswered)
             \<and> calls m' (snd (generateCallID (init_unix env) m)) = None
             \<and> getCall (snd (generateCallID (init_unix env) m)) m' = None
             \<and> (\<forall>other. other \<noteq> snd (generateCallID (init_unix env) m) \<longrightarrow>
                    calls m' other = calls m other)"
  using assms
  by (cases "generateCallID (init_unix env) m")
     (auto simp: InitiateCall_def Let_def removeCall_def getCall_def generateCallID_def)

theorem InitiateCall_not_answered_witness:
  "callSystem initialized_manager = Some (Provider ''https://example.test/media-stream'')
   \<and> init_MakeCall initiate_ringing = Inr 7
   \<and> \<not> waitForAnswer (init_done initiate_ringing) (init_status initiate_ringing)
          (init_lag initiate_ringing) (init_wait_now initiate_ringing) 30000
   \<and> (\<exists>m'. InitiateCall initiate_ringing initialized_manager ''Hi, ready?'' =
              Some (m', [Dial, Hangup 7], None, [], Some CallNotAnswered)
            \<and> calls m' = Map.empty)"
proof -
  let ?id = "snd (generateCallID (init_unix initiate_ringing) initialized_manager)"
  have a: "callSystem initialized_manager = Some (Provider ''https://example.test/media-stream'')"
    by (simp add: initialized_manager_def)
  have b: "init_MakeCall initiate_ringing = Inr 7" by (simp add: initiate_ringing_def)
  have "init_status initiate_ringing i \<noteq> StatusAnswered" for i
    by (simp add: initiate_ringing_def)
  then have c: "\<not> waitForAnswer (init_done initiate_ringing) (init_status initiate_ringing)
          (init_lag initiate_ringing) (init_wait_now initiate_ringing) 30000"
    unfolding waitForAnswer_def by (rule wait_never_answered)
  from InitiateCall_not_answered [OF a b c, of "''Hi, ready?''"]
  obtain m' where
    f: "InitiateCall initiate_ringing initialized_manager ''Hi, ready?'' =
          Some (m', [Dial, Hangup 7], None, [], Some CallNotAnswered)"
    and g: "calls m' ?id = None"
    and k: "\<forall>other. other \<noteq> ?id \<longrightarrow> calls m' other = calls initialized_manager other"
    by (elim exE conjE)
  have r: "calls initialized_manager x = None" for x
    by (simp add: initialized_manager_def New_def)
  have "calls m' x = None" for x
  proof (cases "x = ?id")
    case True
    with g show ?thesis by (simp only:)
  next
    case False
    with k have "calls m' x = calls initialized_manager x" by (simp only: simp_thms)
    with r show ?thesis by (simp only:)
  qed
  then have e: "calls m' = Map.empty" by (simp only: fun_eq_iff simp_thms)
  from f e have "InitiateCall initiate_ringing initialized_manager ''Hi, ready?'' =
              Some (m', [Dial, Hangup 7], None, [], Some CallNotAnswered)
            \<and> calls m' = Map.empty" by (rule conjI)
  then have d: "\<exists>m'. InitiateCall initiate_ringing initialized_manager ''Hi, ready?'' =
              Some (m', [Dial, Hangup 7], None, [], Some CallNotAnswered)
            \<and> calls m' = Map.empty" by (rule exI)
  from c d have "\<not> waitForAnswer (init_done initiate_ringing) (init_status initiate_ringing)
          (init_lag initiate_ringing) (init_wait_now initiate_ringing) 30000
   \<and> (\<exists>m'. InitiateCall initiate_ringing initialized_manager ''Hi, ready?'' =
              Some (m', [Dial, Hangup 7], None, [], Some CallNotAnswered)
            \<and> calls m' = Map.empty)" by (rule conjI)
  with b have "init_MakeCall initiate_ringing = Inr 7
   \<and> \<not> waitForAnswer (init_done initiate_ringing) (init_status initiate_ringing)
          (init_lag initiate_ringing) (init_wait_now initiate_ringing) 30000
   \<and> (\<exists>m'. InitiateCall initiate_ringing initialized_manager ''Hi, ready?'' =
              Some (m', [Dial, Hangup 7], None, [], Some CallNotAnswered)
            \<and> calls m' = Map.empty)" by (rule conjI)
  with a show ?thesis by (rule conjI)
qed

subsection \<open>A call that is answered and then fails\<close>

lemma speak_ID: "ID (fst (speak env state message)) = ID state"
  by (simp add: speak_state AddTurn_frame)

lemma listen_loop_ID:
  "listen_loop now script t state = Some (state', effs, resolved, err) \<Longrightarrow> ID state' = ID state"
  by (induction now script t state rule: listen_loop.induct)
     (auto simp: AddTurn_frame split: option.splits if_splits)

lemma listen_ID:
  "listen env state = Some (state', effs, resolved, err) \<Longrightarrow> ID state' = ID state"
  by (auto simp: listen_def split: if_splits option.splits dest: listen_loop_ID)

lemma speakAndListen_ID:
  assumes "speakAndListen senv lenv state message = Some (state', effs, response, err)"
  shows "ID state' = ID state"
proof (cases "speak senv state message")
  case (fields state1 effs1 err1)
  then have i: "ID state1 = ID state" using speak_ID [of senv state message] by simp
  show ?thesis
  proof (cases err1)
    case (Some e)
    with fields assms i show ?thesis by (simp add: speakAndListen_def)
  next
    case None
    with fields assms obtain state2 effs2 response2 err2
      where l: "listen lenv state1 = Some (state2, effs2, response2, err2)" and "state' = state2"
      by (auto simp: speakAndListen_def split: option.splits)
    with listen_ID [OF l] i show ?thesis by simp
  qed
qed

lemma speakAndListen_synthesis_fails:
  "speakAndListen speak_synthesis_fails lenv
     \<lparr>ID = callID, Call = 7, StartTime = 1000, Conversation = [], LastUserMessage = []\<rparr>
     ''Hi, ready?'' =
   Some (\<lparr>ID = callID, Call = 7, StartTime = 1000,
          Conversation = [\<lparr>Role = ''assistant'', Content = ''Hi, ready?'', Timestamp = 2000\<rparr>],
          LastUserMessage = []\<rparr>,
         [TurnAdded ''assistant'' ''Hi, ready?'', TransportLookup 7, SynthesizeStream ''Hi, ready?''],
         [], Some (TTSSynthesisFailed (External ''quota exceeded'')))"
  by (simp add: speakAndListen_def speak_def speak_synthesis_fails_def AddTurn_def Let_def)

text \<open>
  C5. When the call is made and answered within the wait, and the speaking and listening
  that follow fail with an error \<open>e\<close>, \<^verbatim>\<open>InitiateCall\<close> returns the session and the error
  "failed to speak" that wraps \<open>e\<close>, and the session is still in the registry under its
  call id, which is the id the session carries: a lookup of the id (as \<^verbatim>\<open>ContinueCall\<close> and
  \<^verbatim>\<open>EndCall\<close> make it) finds the session.
\<close>

theorem InitiateCall_speak_failure_keeps_session:
  assumes "callSystem m = Some cs" and "init_MakeCall env = Inr call"
    and "waitForAnswer (init_done env) (init_status env) (init_lag env) (init_wait_now env) 30000"
    and "speakAndListen (init_speak env) (init_listen env)
           \<lparr>ID = snd (generateCallID (init_unix env) m), Call = call,
            StartTime = init_StartTime env, Conversation = [], LastUserMessage = []\<rparr> message =
         Some (state', effs, response, Some e)"
  shows "\<exists>m'. InitiateCall env m message =
                 Some (m', Dial # effs, Some state', [], Some (FailedToSpeak e))
             \<and> calls m' (snd (generateCallID (init_unix env) m)) = Some state'
             \<and> ID state' = snd (generateCallID (init_unix env) m)
             \<and> getCall (ID state') m' = Some state'"
proof -
  obtain m1 callID where g: "generateCallID (init_unix env) m = (m1, callID)"
    by (cases "generateCallID (init_unix env) m")
  from assms(4) g have sl: "speakAndListen (init_speak env) (init_listen env)
           \<lparr>ID = callID, Call = call, StartTime = init_StartTime env, Conversation = [],
            LastUserMessage = []\<rparr> message = Some (state', effs, response, Some e)"
    by simp
  from speakAndListen_ID [OF sl] have i: "ID state' = callID" by simp
  from assms(1,2,3) g sl i show ?thesis
    by (simp add: InitiateCall_def Let_def getCall_def)
qed

theorem InitiateCall_speak_failure_keeps_session_witness:
  "callSystem initialized_manager = Some (Provider ''https://example.test/media-stream'')
   \<and> init_MakeCall initiate_answered_speak_fails = Inr 7
   \<and> waitForAnswer (init_done initiate_answered_speak_fails)
         (init_status initiate_answered_speak_fails) (init_lag initiate_answered_speak_fails)
         (init_wait_now initiate_answered_speak_fails) 30000
   \<and> (\<exists>m'. InitiateCall initiate_answered_speak_fails initialized_manager ''Hi, ready?'' =
              Some (m',
                    [Dial, TurnAdded ''assistant'' ''Hi, ready?'', TransportLookup 7,
                     SynthesizeStream ''Hi, ready?''],
                    Some \<lparr>ID = snd (generateCallID 1700000000 initialized_manager), Call = 7,
                          StartTime = 1000,
                          Conversation = [\<lparr>Role = ''assistant'', Content = ''Hi, ready?'',
                                          Timestamp = 2000\<rparr>],
                          LastUserMessage = []\<rparr>,
                    [], Some (FailedToSpeak (TTSSynthesisFailed (External ''quota exceeded''))))
            \<and> calls m' (snd (generateCallID 1700000000 initialized_manager)) =
                Some \<lparr>ID = snd (generateCallID 1700000000 initialized_manager), Call = 7,
                      StartTime = 1000,
                      Conversation = [\<lparr>Role = ''assistant'', Content = ''Hi, ready?'',
                                      Timestamp = 2000\<rparr>],
                      LastUserMessage = []\<rparr>
            \<and> getCall (snd (generateCallID 1700000000 initialized_manager)) m' =
                Some \<lparr>ID = snd (generateCallID 1700000000 initialized_manager), Call = 7,
                      StartTime = 1000,
                      Conversation = [\<lparr>Role = ''assistant'', Content = ''Hi, ready?'',
                                      Timestamp = 2000\<rparr>],
                      LastUserMessage = []\<rparr>)"
  (is "?A \<and> ?B \<and> ?C \<and> ?D")
proof -
  let ?env = initiate_answered_speak_fails
  let ?id = "snd (generateCallID 1700000000 initialized_manager)"
  have a: ?A by (simp add: initialized_manager_def)
  have b: ?B by (simp add: initiate_answered_speak_fails_def)
  have fields: "init_done ?env = (\<lambda>i. False)"
    "init_status ?env = (\<lambda>i. if i < 2 then StatusRinging else StatusAnswered)"
    "init_lag ?env = (\<lambda>i. 0)" "init_wait_now ?env = 1000" "init_unix ?env = 1700000000"
    "init_StartTime ?env = 1000" "init_speak ?env = speak_synthesis_fails"
    by (simp_all add: initiate_answered_speak_fails_def)
  have "wait_loop (\<lambda>i. False) (\<lambda>i. if i < 2 then StatusRinging else StatusAnswered) (\<lambda>i. 0)
          31000 2000 (Suc (Suc 0))"
    by (rule wait_loop_answered) simp_all
  then have "wait_loop (\<lambda>i. False) (\<lambda>i. if i < 2 then StatusRinging else StatusAnswered) (\<lambda>i. 0)
          31000 1500 (Suc 0)"
    by (subst wait_loop_next) (simp_all add: terminal_status_def)
  then have "wait_loop (\<lambda>i. False) (\<lambda>i. if i < 2 then StatusRinging else StatusAnswered) (\<lambda>i. 0)
          31000 1000 0"
    by (subst wait_loop_next) (simp_all add: terminal_status_def)
  then have c: ?C by (simp add: waitForAnswer_def fields)
  have d: "speakAndListen (init_speak ?env) (init_listen ?env)
           \<lparr>ID = snd (generateCallID (init_unix ?env) initialized_manager), Call = 7,
            StartTime = init_StartTime ?env, Conversation = [], LastUserMessage = []\<rparr> ''Hi, ready?'' =
         Some (\<lparr>ID = ?id, Call = 7, StartTime = 1000,
                Conversation = [\<lparr>Role = ''assistant'', Content = ''Hi, ready?'', Timestamp = 2000\<rparr>],
                LastUserMessage = []\<rparr>,
               [TurnAdded ''assistant'' ''Hi, ready?'', TransportLookup 7, SynthesizeStream ''Hi, ready?''],
               [], Some (TTSSynthesisFailed (External ''quota exceeded'')))"
    by (simp only: fields speakAndListen_synthesis_fails)
  from InitiateCall_speak_failure_keeps_session [OF a b c d]
  have "?D" by (simp add: fields)
  with c have "?C \<and> ?D" by (rule conjI)
  with b have "?B \<and> ?C \<and> ?D" by (rule conjI)
  with a show ?thesis by (rule conjI)
qed

subsection \<open>Ending a call whose hangup fails\<close>

lemma getCall_example: "getCall ''call-1-0'' example_manager = Some example_state"
  by (simp add: getCall_def example_manager_def)

lemma end_hangup_fails_fields:
  "end_Hangup end_hangup_fails = Some (External ''signaling backend unreachable'')"
  "end_now end_hangup_fails = 5000"
  by (simp_all add: end_hangup_fails_def)

lemma calls_example_upd:
  "example_manager\<lparr>calls := (calls example_manager)(''call-1-0'' \<mapsto> example_state)\<rparr> = example_manager"
  by (simp add: example_manager_def)

lemma EndCall_hangup_error:
  assumes "getCall callID m = Some state" and "end_Hangup env = Some e"
  shows "\<exists>m' effs d. EndCall env m callID message = (m', effs, d, Some (FailedToHangup e))
                     \<and> getCall callID m' \<noteq> None"
  using assms
  by (auto simp: EndCall_def getCall_def Let_def split: prod.splits)

text \<open>
  C1. The claim is that \<^verbatim>\<open>EndCall\<close> removes the session from the registry also when the
  hangup fails. The code returns the error of the hangup before it reaches
  \<^verbatim>\<open>removeCall\<close>: for the registered session \<^verbatim>\<open>call-1-0\<close>, an empty final message and a
  hangup that fails, \<^verbatim>\<open>EndCall\<close> returns the error "failed to hangup" and the manager it
  was given, in which the session is still registered, and a \<^verbatim>\<open>ContinueCall\<close> on the id
  after it finds the session (it fails in the synthesis, not with "call not found").
\<close>

theorem EndCall_failed_hangup_keeps_session:
  "EndCall end_hangup_fails example_manager ''call-1-0'' [] =
     (example_manager, [Hangup 7], 4000,
      Some (FailedToHangup (External ''signaling backend unreachable'')))
   \<and> getCall ''call-1-0'' example_manager = Some example_state
   \<and> map_option (\<lambda>(m, effs, response, err). err)
         (ContinueCall speak_synthesis_fails listen_final example_manager ''call-1-0''
            ''still there?'') =
       Some (Some (FailedToContinue (TTSSynthesisFailed (External ''quota exceeded''))))"
  by (simp add: EndCall_def getCall_example end_hangup_fails_fields calls_example_upd
        Duration_def Call_example_state ContinueCall_def speakAndListen_def speak_def
        speak_synthesis_fails_def Let_def)
     (simp add: example_state_def)

subsection \<open>Operations that fail at once\<close>

text \<open>
  C9. When \<^verbatim>\<open>Initialize\<close> has not run (the call system is nil), \<^verbatim>\<open>InitiateCall\<close> returns
  the error "not initialized" with no session and no response; it makes no request (it
  does not dial), and the manager after it is the manager before it: the registry and the
  call counter are unchanged, so no id was generated and no session was added.
\<close>

theorem InitiateCall_not_initialized:
  "callSystem m = None \<Longrightarrow>
     InitiateCall env m message = Some (m, [], None, [], Some NotInitialized)"
  by (simp add: InitiateCall_def)

theorem InitiateCall_not_initialized_witness:
  "callSystem New = None
   \<and> InitiateCall initiate_ringing New ''Hi, ready?'' = Some (New, [], None, [], Some NotInitialized)"
proof -
  have h: "callSystem New = None" by (simp add: New_def)
  show ?thesis using h InitiateCall_not_initialized [OF h, of initiate_ringing "''Hi, ready?''"]
    by simp
qed

text \<open>
  C10. For a call id that is not in the registry, \<^verbatim>\<open>ContinueCall\<close>, \<^verbatim>\<open>SpeakToUser\<close> and
  \<^verbatim>\<open>EndCall\<close> each return the error "call not found" for that id, make no request, and
  leave the manager as it was: the registry is the same mapping, so every registered
  session keeps its turns, its last user message and its start time.
\<close>

theorem unknown_call_id_changes_nothing:
  "calls m callID = None \<Longrightarrow>
     ContinueCall senv lenv m callID message = Some (m, [], [], Some (CallNotFound callID))
   \<and> SpeakToUser senv m callID message = (m, [], Some (CallNotFound callID))
   \<and> EndCall env m callID message = (m, [], 0, Some (CallNotFound callID))"
  by (simp add: ContinueCall_def SpeakToUser_def EndCall_def getCall_def)

theorem unknown_call_id_changes_nothing_witness:
  "calls example_manager ''call-9-0'' = None
   \<and> ContinueCall speak_ok listen_final example_manager ''call-9-0'' ''still there?'' =
       Some (example_manager, [], [], Some (CallNotFound ''call-9-0''))
   \<and> SpeakToUser speak_ok example_manager ''call-9-0'' ''still there?'' =
       (example_manager, [], Some (CallNotFound ''call-9-0''))
   \<and> EndCall end_hangup_fails example_manager ''call-9-0'' ''still there?'' =
       (example_manager, [], 0, Some (CallNotFound ''call-9-0''))"
proof -
  have h: "calls example_manager ''call-9-0'' = None" by (simp add: example_manager_def)
  show ?thesis
    using h unknown_call_id_changes_nothing [OF h, of speak_ok listen_final "''still there?''"
        end_hangup_fails]
    by simp
qed

subsection \<open>Call ids\<close>

text \<open>The format on concrete numbers.\<close>

lemma generateCallID_example:
  "snd (generateCallID 1700000000 New) = ''call-1-1700000000''"
  "format_int (- 42) = ''-42''"
  "format_int 0 = ''0''"
  by (simp_all add: generateCallID_def New_def Let_def format_int_def dec_nat.simps
        digit_char_def char_of_def bit_Suc_0_iff)

lemma is_digit_digit_char: "d < 10 \<Longrightarrow> is_digit (digit_char d)"
  by (simp add: is_digit_def digit_char_def)

lemma not_is_digit_minus: "\<not> is_digit CHR ''-''"
  by (simp add: is_digit_def)

lemma dec_nat_digits: "list_all is_digit (dec_nat n)"
  by (induction n rule: dec_nat.induct) (subst dec_nat.simps, simp add: is_digit_digit_char)

lemma dec_nat_not_Nil: "dec_nat n \<noteq> []"
  by (subst dec_nat.simps) simp

lemma digit_value_digit_char: "d < 10 \<Longrightarrow> digit_value (digit_char d) = d"
  by (simp add: digit_value_def digit_char_def)

lemma undec_dec_nat: "undec (dec_nat n) = n"
proof (induction n rule: dec_nat.induct)
  case (1 n)
  show ?case
  proof (cases "n < 10")
    case True
    then show ?thesis by (subst dec_nat.simps) (simp add: undec_def digit_value_digit_char)
  next
    case False
    with 1 have "undec (dec_nat (n div 10)) = n div 10" by simp
    with False show ?thesis
      by (subst dec_nat.simps) (simp add: undec_def digit_value_digit_char)
  qed
qed

lemma dec_nat_inj: "dec_nat a = dec_nat b \<Longrightarrow> a = b"
  by (metis undec_dec_nat)

lemma takeWhile_dec_nat: "takeWhile is_digit (dec_nat n @ CHR ''-'' # r) = dec_nat n"
  using dec_nat_digits [of n] by (simp add: list_all_iff takeWhile_append2 not_is_digit_minus)

lemma dec_nat_prefix:
  assumes "dec_nat a @ CHR ''-'' # r = dec_nat b @ CHR ''-'' # s"
  shows "a = b"
proof -
  from assms have "takeWhile is_digit (dec_nat a @ CHR ''-'' # r) =
                   takeWhile is_digit (dec_nat b @ CHR ''-'' # s)" by simp
  then have "dec_nat a = dec_nat b" by (simp only: takeWhile_dec_nat)
  then show ?thesis by (rule dec_nat_inj)
qed

lemma hd_dec_nat_digit: "is_digit (hd (dec_nat n @ xs))"
  using dec_nat_digits [of n] dec_nat_not_Nil [of n]
  by (cases "dec_nat n") (simp_all add: list_all_iff)

lemma format_int_prefix:
  assumes "format_int a @ CHR ''-'' # r = format_int b @ CHR ''-'' # s"
  shows "a = b"
proof (cases "a < 0")
  case an: True
  show ?thesis
  proof (cases "b < 0")
    case True
    with an assms have "dec_nat (nat (- a)) @ CHR ''-'' # r = dec_nat (nat (- b)) @ CHR ''-'' # s"
      by (simp add: format_int_def)
    then have "nat (- a) = nat (- b)" by (rule dec_nat_prefix)
    with an True show ?thesis by simp
  next
    case False
    with an assms have "CHR ''-'' # dec_nat (nat (- a)) @ CHR ''-'' # r =
                        dec_nat (nat b) @ CHR ''-'' # s"
      by (simp add: format_int_def)
    then have "CHR ''-'' = hd (dec_nat (nat b) @ CHR ''-'' # s)" by (metis list.sel(1))
    with hd_dec_nat_digit [of "nat b" "CHR ''-'' # s"] not_is_digit_minus show ?thesis by simp
  qed
next
  case ap: False
  show ?thesis
  proof (cases "b < 0")
    case True
    with ap assms have "dec_nat (nat a) @ CHR ''-'' # r =
                        CHR ''-'' # dec_nat (nat (- b)) @ CHR ''-'' # s"
      by (simp add: format_int_def)
    then have "hd (dec_nat (nat a) @ CHR ''-'' # r) = CHR ''-''" by (metis list.sel(1))
    with hd_dec_nat_digit [of "nat a" "CHR ''-'' # r"] not_is_digit_minus show ?thesis by simp
  next
    case False
    with ap assms have "dec_nat (nat a) @ CHR ''-'' # r = dec_nat (nat b) @ CHR ''-'' # s"
      by (simp add: format_int_def)
    then have "nat a = nat b" by (rule dec_nat_prefix)
    with ap False show ?thesis by simp
  qed
qed

lemma call_id_counter:
  assumes "snd (generateCallID unix m) = snd (generateCallID unix' m')"
  shows "callCounter m = callCounter m'"
proof -
  from assms have "format_int (sint (callCounter m + 1)) @ CHR ''-'' # format_int (sint unix) =
                   format_int (sint (callCounter m' + 1)) @ CHR ''-'' # format_int (sint unix')"
    by (simp add: generateCallID_def Let_def)
  then have "sint (callCounter m + 1) = sint (callCounter m' + 1)" by (rule format_int_prefix)
  then have "callCounter m + 1 = callCounter m' + 1" by (rule signed_word_eqI)
  then show ?thesis by simp
qed

lemma generateCallID_eq:
  "generateCallID unix m =
     (m\<lparr>callCounter := callCounter m + 1\<rparr>,
      ''call-'' @ format_int (sint (callCounter m + 1)) @ ''-'' @ format_int (sint unix))"
  by (simp add: generateCallID_def Let_def)

lemma length_generated_ids: "length (generated_ids m ts) = length ts"
  by (induction ts arbitrary: m) (simp_all add: generateCallID_eq)

lemma generated_ids_nth:
  "k < length ts \<Longrightarrow>
     generated_ids m ts ! k =
       snd (generateCallID (ts ! k) (m\<lparr>callCounter := callCounter m + of_nat k\<rparr>))"
proof (induction ts arbitrary: m k)
  case Nil
  then show ?case by simp
next
  case (Cons t ts)
  show ?case
  proof (cases k)
    case 0
    then show ?thesis by (simp add: generateCallID_eq)
  next
    case (Suc j)
    with Cons.prems have "j < length ts" by simp
    from Cons.IH [OF this, of "m\<lparr>callCounter := callCounter m + 1\<rparr>"] Suc
    show ?thesis by (simp add: generateCallID_eq add.assoc add.commute)
  qed
qed

lemma generated_ids_eq_counter:
  assumes "i < length ts" and "j < length ts"
    and "generated_ids m ts ! i = generated_ids m ts ! j"
  shows "(of_nat i :: 64 word) = of_nat j"
proof -
  from assms have "snd (generateCallID (ts ! i) (m\<lparr>callCounter := callCounter m + of_nat i\<rparr>)) =
                   snd (generateCallID (ts ! j) (m\<lparr>callCounter := callCounter m + of_nat j\<rparr>))"
    by (simp add: generated_ids_nth)
  then have "callCounter (m\<lparr>callCounter := callCounter m + of_nat i\<rparr>) =
             callCounter (m\<lparr>callCounter := callCounter m + of_nat j\<rparr>)"
    by (rule call_id_counter)
  then show ?thesis by simp
qed

lemma format_int_inj: "format_int a = format_int b \<Longrightarrow> a = b"
proof -
  assume "format_int a = format_int b"
  then have "format_int a @ CHR ''-'' # [] = format_int b @ CHR ''-'' # []" by simp
  then show ?thesis by (rule format_int_prefix)
qed

lemma call_id_unix:
  assumes "snd (generateCallID unix m) = snd (generateCallID unix' m')"
  shows "unix = unix'"
proof -
  from assms have c: "callCounter m = callCounter m'" by (rule call_id_counter)
  from assms have "format_int (sint (callCounter m + 1)) @ CHR ''-'' # format_int (sint unix) =
                   format_int (sint (callCounter m' + 1)) @ CHR ''-'' # format_int (sint unix')"
    by (simp add: generateCallID_def Let_def)
  with c have "format_int (sint unix) = format_int (sint unix')" by simp
  then have "sint unix = sint unix'" by (rule format_int_inj)
  then show ?thesis by (rule signed_word_eqI)
qed

lemma generated_ids_eq_unix:
  assumes "i < length ts" and "j < length ts"
    and "generated_ids m ts ! i = generated_ids m ts ! j"
  shows "ts ! i = ts ! j"
proof -
  from assms have "snd (generateCallID (ts ! i) (m\<lparr>callCounter := callCounter m + of_nat i\<rparr>)) =
                   snd (generateCallID (ts ! j) (m\<lparr>callCounter := callCounter m + of_nat j\<rparr>))"
    by (simp add: generated_ids_nth)
  then show ?thesis by (rule call_id_unix)
qed

lemma generated_ids_eq_apart:
  assumes "i < j" and "j < length ts"
    and "generated_ids m ts ! i = generated_ids m ts ! j"
  shows "2 ^ 64 dvd j - i"
proof -
  from assms have "(of_nat i :: 64 word) = of_nat j"
    by (intro generated_ids_eq_counter [of i ts j m]) simp_all
  then have "take_bit 64 i = take_bit 64 j" by (simp add: word_of_nat_eq_iff)
  then have "j mod 2 ^ 64 = i mod 2 ^ 64" by (simp add: take_bit_eq_mod)
  with assms(1) show ?thesis by (simp add: mod_eq_dvd_iff_nat)
qed

text \<open>
  The bound of the theorem below is the width of the counter: the invocation that follows
  \<open>2 ^ 64\<close> others prints the counter of the first one again. Every invocation follows a
  call that was dialed, so no run of the program makes that many, and none within one
  second of the clock.
\<close>

lemma generated_ids_wrap_around:
  "\<not> distinct (generated_ids New (replicate (2 ^ 64 + 1) 1700000000))"
proof -
  let ?ts = "replicate (2 ^ 64 + 1) (1700000000 :: 64 word)"
  have l: "(0::nat) < length ?ts" "(2 ^ 64 :: nat) < length ?ts" by simp_all
  have z: "(of_nat (2 ^ 64) :: 64 word) = 0"
    using of_nat_2p [where ?'a = 64] by simp
  have t: "?ts ! 0 = 1700000000" "?ts ! (2 ^ 64) = 1700000000" by simp_all
  have "generated_ids New ?ts ! 0 =
          snd (generateCallID (?ts ! 0) (New\<lparr>callCounter := callCounter New + of_nat 0\<rparr>))"
    using l(1) by (rule generated_ids_nth)
  moreover have "generated_ids New ?ts ! (2 ^ 64) =
          snd (generateCallID (?ts ! (2 ^ 64))
                 (New\<lparr>callCounter := callCounter New + of_nat (2 ^ 64)\<rparr>))"
    using l(2) by (rule generated_ids_nth)
  ultimately have "generated_ids New ?ts ! 0 = generated_ids New ?ts ! (2 ^ 64)"
    by (simp only: t z semiring_1_class.of_nat_0)
  moreover have "(0::nat) \<noteq> 2 ^ 64" by simp
  ultimately show ?thesis
    using l unfolding distinct_conv_nth length_generated_ids by blast
qed

text \<open>
  C8. Each invocation of \<^verbatim>\<open>generateCallID\<close> adds one to the counter and prints the
  counter and the clock's reading in seconds into the id. Two invocations on one manager
  return the same id only if they are a multiple of \<open>2 ^ 64\<close> invocations apart (the
  64-bit counter has wrapped around to the same value) and read the same second besides.
  So the ids of the invocations of a process, which are fewer than \<open>2 ^ 64\<close>, are
  distinct, whatever the clock reads at each: the printed counter alone tells them apart.
\<close>

theorem generated_ids_distinct:
  "(length ts \<le> 2 ^ 64 \<longrightarrow> distinct (generated_ids m ts))
   \<and> (\<forall>i j. i < j \<and> j < length ts \<and> generated_ids m ts ! i = generated_ids m ts ! j \<longrightarrow>
              2 ^ 64 dvd j - i \<and> ts ! i = ts ! j)
   \<and> callCounter (fst (generateCallID unix m)) = callCounter m + 1"
proof (intro conjI impI allI)
  assume bound: "length ts \<le> 2 ^ 64"
  show "distinct (generated_ids m ts)"
    unfolding distinct_conv_nth length_generated_ids
  proof (intro allI impI)
    fix i j
    assume i: "i < length ts" and j: "j < length ts" and ne: "i \<noteq> j"
    show "generated_ids m ts ! i \<noteq> generated_ids m ts ! j"
    proof
      assume "generated_ids m ts ! i = generated_ids m ts ! j"
      with i j have "(of_nat i :: 64 word) = of_nat j" by (rule generated_ids_eq_counter)
      then have "take_bit 64 i = take_bit 64 j" by (simp add: word_of_nat_eq_iff)
      moreover from i j bound have "i < 2 ^ 64" "j < 2 ^ 64" by simp_all
      ultimately have "i = j" by (simp add: take_bit_nat_eq_self)
      with ne show False by simp
    qed
  qed
next
  fix i j
  assume h: "i < j \<and> j < length ts \<and> generated_ids m ts ! i = generated_ids m ts ! j"
  then show "2 ^ 64 dvd j - i" by (intro generated_ids_eq_apart [of i j ts m]) simp_all
  from h show "ts ! i = ts ! j" by (intro generated_ids_eq_unix [of i ts j m]) simp_all
next
  show "callCounter (fst (generateCallID unix m)) = callCounter m + 1"
    by (simp add: generateCallID_eq)
qed

theorem generated_ids_distinct_witness:
  "length [1700000000, 1700000000, 1700000001 :: 64 word] \<le> 2 ^ 64
   \<and> distinct (generated_ids New [1700000000, 1700000000, 1700000001])
   \<and> callCounter (fst (generateCallID 1700000000 New)) = callCounter New + 1"
proof -
  have h: "length [1700000000, 1700000000, 1700000001 :: 64 word] \<le> 2 ^ 64" by simp
  note g = generated_ids_distinct [of "[1700000000, 1700000000, 1700000001]" New 1700000000]
  from g have d: "length [1700000000, 1700000000, 1700000001 :: 64 word] \<le> 2 ^ 64 \<longrightarrow>
           distinct (generated_ids New [1700000000, 1700000000, 1700000001])"
    by (rule conjunct1)
  from g have c: "callCounter (fst (generateCallID 1700000000 New)) = callCounter New + 1"
    by (rule conjunct2 [THEN conjunct2])
  from d h have "distinct (generated_ids New [1700000000, 1700000000, 1700000001])" by (rule mp)
  then have "distinct (generated_ids New [1700000000, 1700000000, 1700000001])
     \<and> callCounter (fst (generateCallID 1700000000 New)) = callCounter New + 1"
    using c by (rule conjI)
  with h show ?thesis by (rule conjI)
qed

end
